theory Spec2Isabelle
  imports
    Complex_Main
    "HOL-Library.Sublist"
    "HOL-Library.Char_ord"
    "HOL-Library.List_Lexorder"
    "HOL-Library.Product_Lexorder"
begin

section \<open>Strings, as the plugin's JavaScript and SQL treat them\<close>

text \<open>
  A JavaScript string is modelled as a \<open>string\<close>. Case folding and the character classes
  are the ASCII ones: \<open>toLowerCase\<close> maps \<open>A-Z\<close> to \<open>a-z\<close> and leaves every other
  character alone, \<open>\s\<close> is tab, line feed, vertical tab, form feed, carriage return and
  space, \<open>\d\<close> is \<open>0-9\<close> and \<open>\w\<close> is \<open>[A-Za-z0-9_]\<close>. JavaScript folds and
  space-tests some characters beyond ASCII as well; those are ordinary characters here.
\<close>

definition is_upper :: "char \<Rightarrow> bool" where
  "is_upper c = (CHR ''A'' \<le> c \<and> c \<le> CHR ''Z'')"

definition toLowerChar :: "char \<Rightarrow> char" where
  "toLowerChar c = (if is_upper c then char_of (of_char c + (32::nat)) else c)"

definition toLowerCase :: "string \<Rightarrow> string" where
  "toLowerCase s = map toLowerChar s"

definition is_space :: "char \<Rightarrow> bool" where
  "is_space c = (c \<in> set [CHR 0x09, CHR 0x0A, CHR 0x0B, CHR 0x0C, CHR 0x0D, CHR '' ''])"

definition is_digit :: "char \<Rightarrow> bool" where
  "is_digit c = (CHR ''0'' \<le> c \<and> c \<le> CHR ''9'')"

definition is_word_char :: "char \<Rightarrow> bool" where
  "is_word_char c =
     ((CHR ''a'' \<le> c \<and> c \<le> CHR ''z'') \<or> (CHR ''A'' \<le> c \<and> c \<le> CHR ''Z'')
      \<or> is_digit c \<or> c = CHR ''_'')"

text \<open>
  \<open>s.split(/\s+/)\<close>: the pieces between maximal runs of whitespace. A string that starts
  or ends with whitespace gives an empty first or last piece, and the empty string gives
  one empty piece, as in JavaScript.
\<close>

function split_ws :: "string \<Rightarrow> string list" where
  "split_ws s =
     (let w = takeWhile (\<lambda>c. \<not> is_space c) s;
          rest = dropWhile (\<lambda>c. \<not> is_space c) s
      in if rest = [] then [w] else w # split_ws (dropWhile is_space rest))"
  by pat_completeness auto
termination
proof (relation "measure length")
  show "wf (measure length)" by simp
next
  fix s :: string and w rest
  assume rest: "rest = dropWhile (\<lambda>c. \<not> is_space c) s" and ne: "rest \<noteq> []"
  from ne obtain c cs where cons: "rest = c # cs" by (cases rest) auto
  with rest have "is_space c"
    by (metis hd_dropWhile list.sel(1) ne)
  then have "length (dropWhile is_space rest) \<le> length cs"
    by (simp add: cons length_dropWhile_le)
  moreover have "length rest \<le> length s"
    by (simp add: rest length_dropWhile_le)
  ultimately show "(dropWhile is_space rest, s) \<in> measure length"
    by (simp add: cons)
qed

declare split_ws.simps [simp del]

section \<open>Regular expressions\<close>

text \<open>
  The fragment of JavaScript regular expressions that the plugin's patterns use. A
  position in the subject is the character before it (\<open>None\<close> at the start) and the rest
  of the subject; \<open>rx\<close> lists the positions at which a match of the expression that
  starts at the given position can end. The flag is the \<open>i\<close> flag of the expression.
  Repetition is only ever applied to a single character class in the patterns
  (\<open>\s+\<close>, \<open>\s*\<close>), which is \<open>Many\<close>; \<open>\d{1,2}\<close> is a digit and an optional digit.
\<close>

datatype atom = Chr char | Digit | Space | OneOf string

datatype regex =
    Eps
  | Atom atom
  | Seq regex regex
  | Alt regex regex
  | Many atom
  | WordB
  | Bol
  | Eol

type_synonym pos = "char option \<times> string"

fun atom_ok :: "bool \<Rightarrow> atom \<Rightarrow> char \<Rightarrow> bool" where
  "atom_ok ic (Chr a) c = (if ic then toLowerChar a = toLowerChar c else a = c)"
| "atom_ok ic Digit c = is_digit c"
| "atom_ok ic Space c = is_space c"
| "atom_ok ic (OneOf cs) c =
     list_ex (\<lambda>a. if ic then toLowerChar a = toLowerChar c else a = c) cs"

fun many :: "bool \<Rightarrow> atom \<Rightarrow> char option \<Rightarrow> string \<Rightarrow> pos list" where
  "many ic a p [] = [(p, [])]"
| "many ic a p (c # cs) =
     (if atom_ok ic a c then many ic a (Some c) cs @ [(p, c # cs)] else [(p, c # cs)])"

definition word_before :: "char option \<Rightarrow> bool" where
  "word_before p = (case p of None \<Rightarrow> False | Some c \<Rightarrow> is_word_char c)"

definition word_after :: "string \<Rightarrow> bool" where
  "word_after s = (case s of [] \<Rightarrow> False | c # _ \<Rightarrow> is_word_char c)"

fun rx :: "bool \<Rightarrow> regex \<Rightarrow> pos \<Rightarrow> pos list" where
  "rx ic Eps st = [st]"
| "rx ic (Atom a) st =
     (case snd st of [] \<Rightarrow> []
      | c # cs \<Rightarrow> if atom_ok ic a c then [(Some c, cs)] else [])"
| "rx ic (Seq r1 r2) st = concat (map (rx ic r2) (rx ic r1 st))"
| "rx ic (Alt r1 r2) st = rx ic r1 st @ rx ic r2 st"
| "rx ic (Many a) st = many ic a (fst st) (snd st)"
| "rx ic WordB st = (if word_before (fst st) \<noteq> word_after (snd st) then [st] else [])"
| "rx ic Bol st = (if fst st = None then [st] else [])"
| "rx ic Eol st = (if snd st = [] then [st] else [])"

fun starts :: "char option \<Rightarrow> string \<Rightarrow> pos list" where
  "starts p [] = [(p, [])]"
| "starts p (c # cs) = (p, c # cs) # starts (Some c) cs"

text \<open>\<open>re.test(s)\<close>: some match starts somewhere in the subject.\<close>

definition regex_test :: "bool \<times> regex \<Rightarrow> string \<Rightarrow> bool" where
  "regex_test re s = list_ex (\<lambda>st. rx (fst re) (snd re) st \<noteq> []) (starts None s)"

fun Seqs :: "regex list \<Rightarrow> regex" where
  "Seqs [] = Eps"
| "Seqs [r] = r"
| "Seqs (r # rs) = Seq r (Seqs rs)"

fun Alts :: "regex list \<Rightarrow> regex" where
  "Alts [] = Atom (OneOf [])"
| "Alts [r] = r"
| "Alts (r # rs) = Alt r (Alts rs)"

definition Lit :: "string \<Rightarrow> regex" where
  "Lit s = Seqs (map (\<lambda>c. Atom (Chr c)) s)"

definition Words :: "string list \<Rightarrow> regex" where
  "Words ws = Alts (map Lit ws)"

definition Opt :: "regex \<Rightarrow> regex" where
  "Opt r = Alt r Eps"

definition Plus :: "atom \<Rightarrow> regex" where
  "Plus a = Seq (Atom a) (Many a)"

section \<open>Query type detection\<close>

datatype query_type = Semantic | Structured

text \<open>The patterns, in the order of the source, each with its \<open>i\<close> flag.\<close>

definition TEMPORAL_PATTERNS :: "(bool \<times> regex) list" where
  "TEMPORAL_PATTERNS =
    [ (True, Seqs [WordB,
         Alts [Lit ''yesterday'', Lit ''today'',
               Seqs [Lit ''last'', Plus Space, Words [''week'', ''month'', ''year'']],
               Seqs [Lit ''this'', Plus Space, Words [''week'', ''month'', ''year'']]],
         WordB]),
      (True, Seqs [WordB,
         Words [''monday'', ''tuesday'', ''wednesday'', ''thursday'', ''friday'',
                ''saturday'', ''sunday''],
         WordB]),
      (False, Seqs [WordB, Atom Digit, Opt (Atom Digit), Atom (OneOf '':-''),
         Atom Digit, Atom Digit, WordB]),
      (False, Seqs [WordB, Atom Digit, Atom Digit, Atom Digit, Atom Digit,
         Atom (OneOf ''/-''), Atom Digit, Opt (Atom Digit),
         Atom (OneOf ''/-''), Atom Digit, Opt (Atom Digit), WordB]),
      (True, Seqs [WordB,
         Words [''january'', ''february'', ''march'', ''april'', ''may'', ''june'', ''july'',
                ''august'', ''september'', ''october'', ''november'', ''december''],
         WordB]),
      (True, Seqs [WordB, Lit ''when'', Plus Space, Lit ''did'', WordB]),
      (True, Seqs [WordB, Words [''at'', ''on'', ''during'', ''before'', ''after''],
         Plus Space, Atom Digit]) ]"

definition EXACT_PATTERNS :: "(bool \<times> regex) list" where
  "EXACT_PATTERNS =
    [ (True, Seqs [Bol, Lit ''what'', Plus Space, Words [''is'', ''are'', ''was'', ''were''],
         Plus Space, Words [''my'', ''the''], WordB]),
      (True, Seqs [WordB, Lit ''exact'', Opt (Lit ''ly''), WordB]),
      (True, Seqs [WordB, Lit ''id'', Many Space, Atom (OneOf '':='')]) ]"

definition detectQueryType :: "string \<Rightarrow> query_type" where
  "detectQueryType query =
     (if list_ex (\<lambda>pattern. regex_test pattern query) TEMPORAL_PATTERNS then Structured
      else if list_ex (\<lambda>pattern. regex_test pattern query) EXACT_PATTERNS then Structured
      else Semantic)"

section \<open>Data model\<close>

text \<open>
  The interfaces of the source become records. Several interfaces have fields of the same
  name, so each record's fields carry a prefix: \<open>m_\<close> for \<open>Memory\<close>, \<open>sp_\<close> for
  \<open>MemoryStoreParams\<close>, \<open>rp_\<close> for \<open>MemoryRecallParams\<close>, \<open>fp_\<close> for
  \<open>MemoryForgetParams\<close> and \<open>c_\<close> for the columns of the SQL table \<open>memories\<close>. An
  optional field is an \<open>option\<close>. Numbers that are only stored and compared
  (\<open>importance\<close>, distances, scores) are rationals; \<open>limit\<close> is an integer;
  \<open>maxMemories\<close> is a count.
\<close>

datatype MemoryCategory = Preference | Fact | Decision | Entity | Conversation | Other

datatype json =
    JNull
  | JBool bool
  | JNum rat
  | JStr string
  | JArr "json list"
  | JObj "(string \<times> json) list"

type_synonym metadata = "(string \<times> json) list"

record Memory =
  m_id :: string
  m_text :: string
  m_category :: MemoryCategory
  m_importance :: rat
  m_createdAt :: string
  m_updatedAt :: string
  m_sessionKey :: "string option"
  m_metadata :: "metadata option"
  m_score :: "rat option"

record MemoryStoreParams =
  sp_text :: string
  sp_category :: "MemoryCategory option"
  sp_importance :: "rat option"
  sp_sessionKey :: "string option"
  sp_metadata :: "metadata option"

datatype recall_mode = ModeAuto | ModeSemantic | ModeStructured

record MemoryRecallParams =
  rp_query :: string
  rp_limit :: "int option"
  rp_category :: "MemoryCategory option"
  rp_dateFrom :: "string option"
  rp_dateTo :: "string option"
  rp_filterNoise :: "bool option"
  rp_mode :: "recall_mode option"

record MemoryForgetParams =
  fp_memoryId :: "string option"
  fp_query :: "string option"

text \<open>
  The configuration after the defaults have been merged in. A noise pattern is kept as the
  regular expression that \<open>new RegExp(p, 'i')\<close> compiles it to.
\<close>

record PluginConfig =
  maxMemories :: nat
  defaultImportance :: rat
  noisePatterns :: "regex list"
  embeddingModel :: string
  enableEmbeddings :: bool

definition DEFAULT_CONFIG :: PluginConfig where
  "DEFAULT_CONFIG =
     \<lparr> maxMemories = 10000,
       defaultImportance = 7 / 10,
       noisePatterns =
         [ Seqs [Bol,
             Words [''ok'', ''okay'', ''yes'', ''no'', ''thanks'', ''thank you'', ''sure'',
                    ''got it'', ''cool'', ''nice'', ''great''],
             Eol],
           Seqs [Bol, Many Space, Eol] ],
       embeddingModel = ''Xenova/all-MiniLM-L6-v2'',
       enableEmbeddings = True \<rparr>"

text \<open>
  A row of the table \<open>memories\<close>. The \<open>metadata\<close> column holds \<open>JSON.stringify\<close> of the
  value and is read back with \<open>JSON.parse\<close>; the two are inverse on JSON values, so the
  row keeps the value itself. The table is the list of its rows in insertion order.
\<close>

record row =
  c_id :: string
  c_text :: string
  c_text_lower :: string
  c_category :: MemoryCategory
  c_importance :: rat
  c_created_at :: string
  c_updated_at :: string
  c_session_key :: "string option"
  c_metadata :: "metadata option"
  c_has_embedding :: bool

text \<open>A row of the LanceDB table, and a hit of a vector search.\<close>

record vrow =
  v_id :: string
  v_vector :: "rat list"
  v_text :: string

record hit =
  h_id :: string
  h_distance :: "rat option"

datatype error = NotInitialized | SqlConstraint | EmbeddingFailed | VectorIndexFailed

text \<open>
  What the plugin calls and does not implement: the embedding pipeline and the LanceDB
  table operations. Each may fail. They are parameters of the model, and every theorem
  holds for all of them.
\<close>

record ext =
  embed :: "string \<Rightarrow> string \<Rightarrow> error + rat list"
  vsearch :: "vrow list \<Rightarrow> rat list \<Rightarrow> int \<Rightarrow> error + hit list"
  vcreate :: "vrow list \<Rightarrow> error + vrow list"
  vadd :: "vrow list \<Rightarrow> vrow \<Rightarrow> error + vrow list"
  vdelete :: "vrow list \<Rightarrow> string \<Rightarrow> error + vrow list"

text \<open>
  The state: the fields of a \<open>LocalMemoryPlugin\<close> and the module's globals \<open>lanceDb\<close>
  (connected or not) and \<open>lanceTable\<close>. \<open>store\<close> starts \<open>storeEmbedding\<close> without awaiting
  it; \<open>pending\<close> lists the calls that have been started and have not finished. Writing the
  database file (\<open>save\<close>) is not part of the model.
\<close>

record plugin =
  db :: "row list option"
  config :: PluginConfig
  lanceDb :: bool
  lanceTable :: "vrow list option"
  pending :: "Memory list"

definition truthy :: "string option \<Rightarrow> bool" where
  "truthy x = (case x of None \<Rightarrow> False | Some s \<Rightarrow> s \<noteq> [])"

section \<open>The SQL statements\<close>

text \<open>
  \<open>ORDER BY importance, created_at\<close> compares the pair, lexicographically: the
  importance as a number, \<open>created_at\<close> as text. SQLite leaves the order of rows with
  equal keys open; the model takes insertion order for \<open>ASC\<close> and its reverse for
  \<open>DESC\<close>, and no theorem below depends on that choice.
\<close>

definition rank :: "row \<Rightarrow> rat \<times> string" where
  "rank r = (c_importance r, c_created_at r)"

definition order_asc :: "row list \<Rightarrow> row list" where
  "order_asc rows = sort_key rank rows"

definition order_desc :: "row list \<Rightarrow> row list" where
  "order_desc rows = rev (sort_key rank rows)"

text \<open>\<open>LIMIT n\<close>: a negative \<open>n\<close> is no limit.\<close>

definition sql_limit :: "int \<Rightarrow> 'a list \<Rightarrow> 'a list" where
  "sql_limit n xs = (if n < 0 then xs else take (nat n) xs)"

text \<open>
  \<open>subject LIKE pattern\<close>: \<open>%\<close> matches any run of characters, \<open>_\<close> any one
  character, and letters match without regard to ASCII case.
\<close>

fun like :: "string \<Rightarrow> string \<Rightarrow> bool" where
  "like [] [] = True"
| "like [] (c # cs) = False"
| "like (p # ps) [] = (p = CHR ''%'' \<and> like ps [])"
| "like (p # ps) (c # cs) =
     (if p = CHR ''%'' then like ps (c # cs) \<or> like (p # ps) cs
      else (p = CHR ''_'' \<or> toLowerChar p = toLowerChar c) \<and> like ps cs)"

text \<open>\<open>INSERT INTO memories\<close>: \<open>id\<close> is the primary key.\<close>

definition insert_row :: "row \<Rightarrow> row list \<Rightarrow> error + row list" where
  "insert_row r rows =
     (if c_id r \<in> set (map c_id rows) then Inl SqlConstraint else Inr (rows @ [r]))"

text \<open>\<open>DELETE FROM memories WHERE id IN (ids)\<close>, and the rows it removes.\<close>

definition delete_ids :: "string list \<Rightarrow> row list \<Rightarrow> row list" where
  "delete_ids ids rows = filter (\<lambda>r. c_id r \<notin> set ids) rows"

definition rows_modified :: "string list \<Rightarrow> row list \<Rightarrow> nat" where
  "rows_modified ids rows = length (filter (\<lambda>r. c_id r \<in> set ids) rows)"

definition memory_of_row :: "row \<Rightarrow> Memory" where
  "memory_of_row r =
     \<lparr> m_id = c_id r,
       m_text = c_text r,
       m_category = c_category r,
       m_importance = c_importance r,
       m_createdAt = c_created_at r,
       m_updatedAt = c_updated_at r,
       m_sessionKey = (if truthy (c_session_key r) then c_session_key r else None),
       m_metadata = c_metadata r,
       m_score = None \<rparr>"

section \<open>The plugin's operations\<close>

subsection \<open>Retention\<close>

text \<open>
  \<open>pruneOldMemories\<close> deletes the vectors of the pruned ids one by one, each with its own
  \<open>catch\<close>: a failed delete is skipped. It starts these deletes without awaiting them;
  the model applies them at once. \<open>forget\<close> deletes the vectors in a loop inside one
  \<open>try\<close>: the first failure ends the loop.
\<close>

fun delete_vectors_each :: "ext \<Rightarrow> string list \<Rightarrow> vrow list \<Rightarrow> vrow list" where
  "delete_vectors_each x [] t = t"
| "delete_vectors_each x (i # ids) t =
     delete_vectors_each x ids (case vdelete x t i of Inl _ \<Rightarrow> t | Inr t' \<Rightarrow> t')"

fun delete_vectors_try :: "ext \<Rightarrow> string list \<Rightarrow> vrow list \<Rightarrow> vrow list" where
  "delete_vectors_try x [] t = t"
| "delete_vectors_try x (i # ids) t =
     (case vdelete x t i of Inl _ \<Rightarrow> t | Inr t' \<Rightarrow> delete_vectors_try x ids t')"

definition pruneOldMemories :: "ext \<Rightarrow> plugin \<Rightarrow> error + plugin" where
  "pruneOldMemories x st =
     (case db st of
        None \<Rightarrow> Inl NotInitialized
      | Some rows \<Rightarrow>
          let total = length rows in
          if total > maxMemories (config st) then
            let toDelete = total - maxMemories (config st);
                idsToDelete = map c_id (sql_limit (int toDelete) (order_asc rows))
            in if length idsToDelete > 0 then
                 Inr (st\<lparr> db := Some (delete_ids idsToDelete rows),
                          lanceTable := map_option (delete_vectors_each x idsToDelete)
                                          (lanceTable st) \<rparr>)
               else Inr st
          else Inr st)"

subsection \<open>store\<close>

text \<open>
  \<open>now\<close> is what \<open>new Date().toISOString()\<close> returns and \<open>uuid\<close> what \<open>randomUUID()\<close>
  returns in this call.
\<close>

definition row_of_memory :: "Memory \<Rightarrow> row" where
  "row_of_memory memory =
     \<lparr> c_id = m_id memory,
       c_text = m_text memory,
       c_text_lower = toLowerCase (m_text memory),
       c_category = m_category memory,
       c_importance = m_importance memory,
       c_created_at = m_createdAt memory,
       c_updated_at = m_updatedAt memory,
       c_session_key = (if truthy (m_sessionKey memory) then m_sessionKey memory else None),
       c_metadata = m_metadata memory,
       c_has_embedding = False \<rparr>"

definition new_memory :: "PluginConfig \<Rightarrow> string \<Rightarrow> string \<Rightarrow> MemoryStoreParams \<Rightarrow> Memory" where
  "new_memory cfg now uuid params =
     \<lparr> m_id = uuid,
       m_text = sp_text params,
       m_category = (case sp_category params of None \<Rightarrow> Other | Some c \<Rightarrow> c),
       m_importance =
         (case sp_importance params of None \<Rightarrow> defaultImportance cfg | Some i \<Rightarrow> i),
       m_createdAt = now,
       m_updatedAt = now,
       m_sessionKey = sp_sessionKey params,
       m_metadata = sp_metadata params,
       m_score = None \<rparr>"

definition store ::
  "ext \<Rightarrow> string \<Rightarrow> string \<Rightarrow> MemoryStoreParams \<Rightarrow> plugin \<Rightarrow> error + Memory \<times> plugin" where
  "store x now uuid params st =
     (case db st of
        None \<Rightarrow> Inl NotInitialized
      | Some rows \<Rightarrow>
          let memory = new_memory (config st) now uuid params in
          (case insert_row (row_of_memory memory) rows of
             Inl e \<Rightarrow> Inl e
           | Inr rows' \<Rightarrow>
               let st1 = st\<lparr>db := Some rows'\<rparr>;
                   st2 = (if enableEmbeddings (config st1) \<and> lanceDb st1
                          then st1\<lparr>pending := pending st1 @ [memory]\<rparr> else st1)
               in (case pruneOldMemories x st2 of
                     Inl e \<Rightarrow> Inl e
                   | Inr st3 \<Rightarrow> Inr (memory, st3))))"

text \<open>
  \<open>storeEmbedding\<close>, run to its end: every failure inside it is caught and logged.
  \<open>ensureLanceTable\<close> creates the table with a dummy row and deletes the dummy; when
  the delete fails the table has been created already and stays, with the dummy. The
  field \<open>embeddingDimensions\<close>, which is written and never read, is left out.
\<close>

definition dummy_vrow :: "nat \<Rightarrow> vrow" where
  "dummy_vrow dimensions =
     \<lparr> v_id = ''__init__'', v_vector = replicate dimensions 0, v_text = [] \<rparr>"

definition ensureLanceTable :: "ext \<Rightarrow> nat \<Rightarrow> plugin \<Rightarrow> error option \<times> plugin" where
  "ensureLanceTable x dimensions st =
     (case lanceTable st of
        Some _ \<Rightarrow> (None, st)
      | None \<Rightarrow>
          (case vcreate x [dummy_vrow dimensions] of
             Inl e \<Rightarrow> (Some e, st)
           | Inr t \<Rightarrow>
               (case vdelete x t ''__init__'' of
                  Inl e \<Rightarrow> (Some e, st\<lparr>lanceTable := Some t\<rparr>)
                | Inr t' \<Rightarrow> (None, st\<lparr>lanceTable := Some t'\<rparr>))))"

definition mark_embedded :: "string \<Rightarrow> row list \<Rightarrow> row list" where
  "mark_embedded i rows = map (\<lambda>r. if c_id r = i then r\<lparr>c_has_embedding := True\<rparr> else r) rows"

definition storeEmbedding :: "ext \<Rightarrow> Memory \<Rightarrow> plugin \<Rightarrow> plugin" where
  "storeEmbedding x memory st =
     (case embed x (m_text memory) (embeddingModel (config st)) of
        Inl _ \<Rightarrow> st
      | Inr vector \<Rightarrow>
          (case ensureLanceTable x (length vector) st of
             (Some _, st1) \<Rightarrow> st1
           | (None, st1) \<Rightarrow>
               (case lanceTable st1 of
                  None \<Rightarrow> st1
                | Some t \<Rightarrow>
                    (case vadd x t \<lparr>v_id = m_id memory, v_vector = vector,
                                     v_text = m_text memory\<rparr> of
                       Inl _ \<Rightarrow> st1
                     | Inr t' \<Rightarrow>
                         st1\<lparr> lanceTable := Some t',
                              db := map_option (mark_embedded (m_id memory)) (db st1) \<rparr>))))"

text \<open>The oldest started \<open>storeEmbedding\<close> call finishes.\<close>

definition embedding_done :: "ext \<Rightarrow> plugin \<Rightarrow> plugin" where
  "embedding_done x st =
     (case pending st of
        [] \<Rightarrow> st
      | memory # ms \<Rightarrow> storeEmbedding x memory (st\<lparr>pending := ms\<rparr>))"

subsection \<open>recall\<close>

definition STOP_WORDS :: "string list" where
  "STOP_WORDS = [''what'', ''did'', ''when'', ''where'', ''how'', ''the'', ''is'', ''are'',
                 ''was'', ''were'', ''my'', ''you'', ''last'', ''this'']"

definition searchWords :: "string \<Rightarrow> string list" where
  "searchWords query =
     (let words = filter (\<lambda>w. length w > 1) (split_ws (toLowerCase query))
      in filter (\<lambda>w. w \<notin> set STOP_WORDS) words)"

text \<open>
  The \<open>WHERE\<close> clause that \<open>structuredSearch\<close> builds: the conditions it pushes, in
  order, joined with \<open>AND\<close>; the text condition joins one \<open>LIKE\<close> per search word
  with \<open>OR\<close>.
\<close>

definition conditions :: "MemoryRecallParams \<Rightarrow> (row \<Rightarrow> bool) list" where
  "conditions params =
     (if rp_query params \<noteq> [] \<and> searchWords (rp_query params) \<noteq> []
      then [\<lambda>r. list_ex (\<lambda>word. like (''%'' @ word @ ''%'') (c_text_lower r))
                   (searchWords (rp_query params))]
      else [])
     @ (case rp_category params of None \<Rightarrow> [] | Some c \<Rightarrow> [\<lambda>r. c_category r = c])
     @ (case rp_dateFrom params of
          None \<Rightarrow> []
        | Some dateFrom \<Rightarrow> if dateFrom \<noteq> [] then [\<lambda>r. c_created_at r \<ge> dateFrom] else [])
     @ (case rp_dateTo params of
          None \<Rightarrow> []
        | Some dateTo \<Rightarrow> if dateTo \<noteq> [] then [\<lambda>r. c_created_at r \<le> dateTo] else [])"

definition whereClause :: "MemoryRecallParams \<Rightarrow> row \<Rightarrow> bool" where
  "whereClause params r = list_all (\<lambda>condition. condition r) (conditions params)"

definition structuredSearch :: "MemoryRecallParams \<Rightarrow> int \<Rightarrow> row list \<Rightarrow> Memory list" where
  "structuredSearch params limit rows =
     map memory_of_row
       (sql_limit (limit * 2) (order_desc (filter (whereClause params) rows)))"

text \<open>
  \<open>semanticSearch\<close>: \<open>memoryMap\<close> is filled row by row, so a later row with the same id
  would replace an earlier one.
\<close>

definition semanticSearch ::
  "ext \<Rightarrow> MemoryRecallParams \<Rightarrow> int \<Rightarrow> plugin \<Rightarrow> row list \<Rightarrow> Memory list" where
  "semanticSearch x params limit st rows =
     (case lanceTable st of
        None \<Rightarrow> structuredSearch params limit rows
      | Some table \<Rightarrow>
          (case embed x (rp_query params) (embeddingModel (config st)) of
             Inl _ \<Rightarrow> structuredSearch params limit rows
           | Inr queryVector \<Rightarrow>
               (case vsearch x table queryVector (limit * 2) of
                  Inl _ \<Rightarrow> structuredSearch params limit rows
                | Inr searchResults \<Rightarrow>
                    let ids = map h_id searchResults in
                    if length ids = 0 then structuredSearch params limit rows
                    else
                      let memoryMap =
                            map_of (rev (map (\<lambda>r. (c_id r, memory_of_row r))
                                           (filter (\<lambda>r. c_id r \<in> set ids) rows)))
                      in concat (map (\<lambda>r. case memoryMap (h_id r) of
                                             None \<Rightarrow> []
                                           | Some m \<Rightarrow>
                                               [m\<lparr>m_score := Some (1 -
                                                   (case h_distance r of None \<Rightarrow> 0
                                                    | Some d \<Rightarrow> d))\<rparr>])
                                   searchResults))))"

text \<open>\<open>xs.slice(0, n)\<close>: a negative \<open>n\<close> counts from the end.\<close>

definition slice0 :: "int \<Rightarrow> 'a list \<Rightarrow> 'a list" where
  "slice0 n xs = (if n < 0 then take (nat (int (length xs) + n)) xs else take (nat n) xs)"

definition is_noise :: "PluginConfig \<Rightarrow> string \<Rightarrow> bool" where
  "is_noise cfg s = list_ex (\<lambda>re. regex_test (True, re) s) (noisePatterns cfg)"

definition queryType_of :: "MemoryRecallParams \<Rightarrow> query_type" where
  "queryType_of params =
     (case (case rp_mode params of None \<Rightarrow> ModeAuto | Some m \<Rightarrow> m) of
        ModeAuto \<Rightarrow> detectQueryType (rp_query params)
      | ModeSemantic \<Rightarrow> Semantic
      | ModeStructured \<Rightarrow> Structured)"

definition limit_of :: "MemoryRecallParams \<Rightarrow> int" where
  "limit_of params = (case rp_limit params of None \<Rightarrow> 5 | Some l \<Rightarrow> if l = 0 then 5 else l)"

definition recall :: "ext \<Rightarrow> MemoryRecallParams \<Rightarrow> plugin \<Rightarrow> error + Memory list" where
  "recall x params st =
     (case db st of
        None \<Rightarrow> Inl NotInitialized
      | Some rows \<Rightarrow>
          let limit = limit_of params;
              queryType = queryType_of params;
              results =
                (if queryType = Structured \<or> \<not> enableEmbeddings (config st)
                 then structuredSearch params limit rows
                 else semanticSearch x params limit st rows);
              results' =
                (if rp_filterNoise params \<noteq> Some False
                 then filter (\<lambda>m. \<not> is_noise (config st) (m_text m)) results
                 else results)
          in Inr (slice0 limit results'))"

subsection \<open>forget\<close>

text \<open>The ids to delete: the given id, or those of the memories a recall of the query finds.\<close>

definition ids_by_id :: "string option \<Rightarrow> string list" where
  "ids_by_id memoryId = (case memoryId of None \<Rightarrow> [] | Some i \<Rightarrow> [i])"

definition ids_by_query :: "ext \<Rightarrow> string option \<Rightarrow> plugin \<Rightarrow> error + string list" where
  "ids_by_query x query st =
     (case query of
        None \<Rightarrow> Inr []
      | Some q \<Rightarrow>
          (case recall x \<lparr> rp_query = q, rp_limit = Some 100, rp_category = None,
                            rp_dateFrom = None, rp_dateTo = None,
                            rp_filterNoise = Some False, rp_mode = None \<rparr> st of
             Inl e \<Rightarrow> Inl e
           | Inr memories \<Rightarrow> Inr (map m_id memories)))"

definition forget ::
  "ext \<Rightarrow> MemoryForgetParams \<Rightarrow> plugin \<Rightarrow> error + nat \<times> plugin" where
  "forget x params st =
     (case db st of
        None \<Rightarrow> Inl NotInitialized
      | Some rows \<Rightarrow>
          (case (if truthy (fp_memoryId params) then Inr (ids_by_id (fp_memoryId params))
                 else if truthy (fp_query params) then ids_by_query x (fp_query params) st
                 else Inr []) of
             Inl e \<Rightarrow> Inl e
           | Inr idsToDelete \<Rightarrow>
               if length idsToDelete > 0 then
                 Inr (rows_modified idsToDelete rows,
                      st\<lparr> db := Some (delete_ids idsToDelete rows),
                          lanceTable := map_option (delete_vectors_try x idsToDelete)
                                          (lanceTable st) \<rparr>)
               else Inr (0, st)))"

section \<open>Notions used to state the properties\<close>

text \<open>Call parameters in which only the given fields are supplied.\<close>

definition store_params :: "string \<Rightarrow> rat option \<Rightarrow> MemoryStoreParams" where
  "store_params t i =
     \<lparr> sp_text = t, sp_category = None, sp_importance = i, sp_sessionKey = None,
       sp_metadata = None \<rparr>"

definition recall_params :: "string \<Rightarrow> recall_mode option \<Rightarrow> int option \<Rightarrow> MemoryRecallParams" where
  "recall_params q m l =
     \<lparr> rp_query = q, rp_limit = l, rp_category = None, rp_dateFrom = None, rp_dateTo = None,
       rp_filterNoise = None, rp_mode = m \<rparr>"

text \<open>The table that \<open>pruneOldMemories\<close> leaves, for a maximum of \<open>k\<close> rows.\<close>

definition prune_rows :: "nat \<Rightarrow> row list \<Rightarrow> row list" where
  "prune_rows k rows =
     (if length rows > k
      then delete_ids (map c_id (take (length rows - k) (order_asc rows))) rows
      else rows)"


text \<open>
  Storing records sequentially: each call of \<open>store\<close> with the clock reading and the
  UUID it draws, the next call on the state the previous one left. The first failure ends
  the run.
\<close>

fun store_all ::
  "ext \<Rightarrow> (string \<times> string \<times> MemoryStoreParams) list \<Rightarrow> plugin
     \<Rightarrow> error + Memory list \<times> plugin" where
  "store_all x [] st = Inr ([], st)"
| "store_all x ((now, uuid, params) # calls) st =
     (case store x now uuid params st of
        Inl e \<Rightarrow> Inl e
      | Inr (memory, st1) \<Rightarrow>
          (case store_all x calls st1 of
             Inl e \<Rightarrow> Inl e
           | Inr (memories, st2) \<Rightarrow> Inr (memory # memories, st2)))"

definition uuid_of :: "string \<times> string \<times> MemoryStoreParams \<Rightarrow> string" where
  "uuid_of call = fst (snd call)"

text \<open>
  What retention maintains between the table and the rows inserted so far, for a maximum
  of \<open>k\<close>: the table holds \<open>min (number inserted) k\<close> of the inserted rows, and no
  row that is gone ranks above a row that is kept. Ranks compare importance first and
  \<open>created_at\<close> second.
\<close>

definition retained :: "nat \<Rightarrow> row list \<Rightarrow> row list \<Rightarrow> bool" where
  "retained k rows inserted \<longleftrightarrow>
     distinct (map c_id inserted)
     \<and> distinct (map c_id rows)
     \<and> set rows \<subseteq> set inserted
     \<and> length rows = min (length inserted) k
     \<and> (\<forall>e \<in> set inserted - set rows. \<forall>s \<in> set rows. rank e \<le> rank s)"



section \<open>Example environment and states\<close>

text \<open>
  An environment in which every external call succeeds: the embedding is a fixed vector,
  the table operations are those of a list, and a search returns the first \<open>k\<close> vectors
  of the table, each at distance \<open>1/10\<close>.
\<close>

definition ext_ok :: ext where
  "ext_ok =
     \<lparr> embed = (\<lambda>text model. Inr [1]),
       vsearch = (\<lambda>t v k. Inr (map (\<lambda>r. \<lparr>h_id = v_id r, h_distance = Some (1 / 10)\<rparr>)
                                  (take (nat k) t))),
       vcreate = (\<lambda>t. Inr t),
       vadd = (\<lambda>t r. Inr (t @ [r])),
       vdelete = (\<lambda>t i. Inr (filter (\<lambda>r. v_id r \<noteq> i) t)) \<rparr>"

text \<open>
  The state after \<open>init()\<close> on an empty data directory: an empty table, LanceDB connected
  when embeddings are enabled, and no vector table yet.
\<close>

definition plugin_init :: "PluginConfig \<Rightarrow> plugin" where
  "plugin_init cfg =
     \<lparr> db = Some [], config = cfg, lanceDb = enableEmbeddings cfg, lanceTable = None,
       pending = [] \<rparr>"

definition example_row :: "string \<Rightarrow> string \<Rightarrow> rat \<Rightarrow> string \<Rightarrow> row" where
  "example_row i t imp created =
     \<lparr> c_id = i, c_text = t, c_text_lower = toLowerCase t, c_category = Other,
       c_importance = imp, c_created_at = created, c_updated_at = created,
       c_session_key = None, c_metadata = None, c_has_embedding = False \<rparr>"

definition degraded_state :: plugin where
  "degraded_state =
     \<lparr> db = Some [example_row ''id-1'' ''User prefers dark mode in all applications''
                    (9 / 10) ''2025-01-01T10:00:00.000Z''],
       config = DEFAULT_CONFIG\<lparr>enableEmbeddings := False\<rparr>,
       lanceDb = False, lanceTable = None, pending = [] \<rparr>"

definition two_rows :: plugin where
  "two_rows =
     \<lparr> db = Some [example_row ''id-1'' ''User prefers dark mode'' (9 / 10) ''2025-01-01'',
                  example_row ''id-2'' ''User lives in Winterthur'' (8 / 10) ''2025-01-02''],
       config = DEFAULT_CONFIG, lanceDb = True,
       lanceTable = Some [\<lparr>v_id = ''id-1'', v_vector = [1], v_text = ''User prefers dark mode''\<rparr>],
       pending = [] \<rparr>"

text \<open>
  A state with a vector whose record is gone from the table, and a history that leads to
  it: a record is stored, forgotten before its embedding is written, the embedding is
  then written, and a second record is stored.
\<close>

definition stale_state :: plugin where
  "stale_state =
     \<lparr> db = Some [example_row ''id-2'' ''User prefers dark mode'' (9 / 10) ''2025-01-02''],
       config = DEFAULT_CONFIG, lanceDb = True,
       lanceTable = Some [\<lparr>v_id = ''id-1'', v_vector = [1], v_text = ''dark mode ideas''\<rparr>],
       pending = [new_memory DEFAULT_CONFIG ''2025-01-02'' ''id-2''
                    (store_params ''User prefers dark mode'' (Some (9 / 10)))] \<rparr>"

definition stale_state_history :: "error + plugin" where
  "stale_state_history =
     (case store ext_ok ''2025-01-01'' ''id-1'' (store_params ''dark mode ideas'' None)
             (plugin_init DEFAULT_CONFIG) of
        Inl e \<Rightarrow> Inl e
      | Inr (m1, st1) \<Rightarrow>
          (case forget ext_ok \<lparr>fp_memoryId = Some ''id-1'', fp_query = None\<rparr> st1 of
             Inl e \<Rightarrow> Inl e
           | Inr (n, st2) \<Rightarrow>
               (case store ext_ok ''2025-01-02'' ''id-2''
                       (store_params ''User prefers dark mode'' (Some (9 / 10)))
                       (embedding_done ext_ok st2) of
                  Inl e \<Rightarrow> Inl e
                | Inr (m2, st3) \<Rightarrow> Inr st3)))"


definition small_plugin :: plugin where
  "small_plugin = plugin_init (DEFAULT_CONFIG\<lparr>maxMemories := 2\<rparr>)"

definition retention_calls :: "(string \<times> string \<times> MemoryStoreParams) list" where
  "retention_calls =
     [ (''2025-01-01'', ''id-1'', store_params ''first note'' (Some (9 / 10))),
       (''2025-01-02'', ''id-2'', store_params ''second note'' (Some (5 / 10))),
       (''2025-01-03'', ''id-3'', store_params ''third note'' (Some (8 / 10))) ]"

definition retention_memories :: "Memory list" where
  "retention_memories =
     map (\<lambda>(now, uuid, params). new_memory (config small_plugin) now uuid params) retention_calls"

section \<open>Properties\<close>

subsection \<open>Query router\<close>


subsection \<open>Recall with embeddings disabled\<close>

lemma conditions_mode [simp]: "conditions (params\<lparr>rp_mode := m\<rparr>) = conditions params"
  by (simp add: conditions_def)

lemma whereClause_mode [simp]: "whereClause (params\<lparr>rp_mode := m\<rparr>) = whereClause params"
  by (simp add: whereClause_def fun_eq_iff)

lemma structuredSearch_mode [simp]:
  "structuredSearch (params\<lparr>rp_mode := m\<rparr>) limit rows = structuredSearch params limit rows"
  by (simp add: structuredSearch_def)

lemma limit_of_mode [simp]: "limit_of (params\<lparr>rp_mode := m\<rparr>) = limit_of params"
  by (simp add: limit_of_def)

text \<open>
  C8: with \<open>enableEmbeddings\<close> false, a recall in mode \<open>auto\<close> (given or by default)
  returns what the recall in mode \<open>structured\<close> returns, for every query and state.
\<close>

theorem degraded_mode_equivalence:
  assumes "\<not> enableEmbeddings (config st)"
  shows "recall x (params\<lparr>rp_mode := Some ModeAuto\<rparr>) st
           = recall x (params\<lparr>rp_mode := Some ModeStructured\<rparr>) st
         \<and> recall x (params\<lparr>rp_mode := None\<rparr>) st
           = recall x (params\<lparr>rp_mode := Some ModeStructured\<rparr>) st"
  using assms by (simp add: recall_def split: option.splits)

theorem degraded_mode_equivalence_witness:
  "\<not> enableEmbeddings (config degraded_state)
   \<and> detectQueryType ''Similar ideas to dark mode preferences'' = Semantic
   \<and> recall ext_ok (recall_params ''Similar ideas to dark mode preferences''
                       (Some ModeAuto) None) degraded_state
     = recall ext_ok (recall_params ''Similar ideas to dark mode preferences''
                       (Some ModeStructured) None) degraded_state"
proof -
  have h: "\<not> enableEmbeddings (config degraded_state)"
    by (simp add: degraded_state_def)
  have d: "detectQueryType ''Similar ideas to dark mode preferences'' = Semantic"
    by code_simp
  show ?thesis
    using h d degraded_mode_equivalence
      [OF h, of ext_ok "recall_params ''Similar ideas to dark mode preferences'' None None"]
    by (simp add: recall_params_def)
qed

subsection \<open>forget\<close>

lemma rows_modified_present:
  "distinct (map c_id rows) \<Longrightarrow> i \<in> set (map c_id rows) \<Longrightarrow> rows_modified [i] rows = 1"
proof (induction rows)
  case Nil
  then show ?case by simp
next
  case (Cons r rows)
  show ?case
  proof (cases "c_id r = i")
    case True
    with Cons.prems have "i \<notin> set (map c_id rows)" by auto
    then have "filter (\<lambda>r. c_id r \<in> set [i]) rows = []"
      by (auto simp: filter_empty_conv)
    with True show ?thesis by (simp add: rows_modified_def)
  next
    case False
    with Cons show ?thesis by (auto simp: rows_modified_def)
  qed
qed

lemma rows_modified_absent:
  "i \<notin> set (map c_id rows) \<Longrightarrow> rows_modified [i] rows = 0"
  by (auto simp: rows_modified_def filter_empty_conv)

lemma delete_ids_absent: "i \<in> set ids \<Longrightarrow> i \<notin> set (map c_id (delete_ids ids rows))"
  by (auto simp: delete_ids_def)

text \<open>
  C7: on an initialised plugin, for a record \<open>X\<close> of the table (ids are unique, the id
  being the primary key, and not empty, being UUIDs), \<open>forget({memoryId: X})\<close> returns
  \<open>{deleted: 1}\<close> and a second call returns \<open>{deleted: 0}\<close>; neither call fails,
  whatever the vector store does.
\<close>

theorem forget_by_id_twice:
  assumes "db st = Some rows"
    and "distinct (map c_id rows)"
    and "X \<in> set (map c_id rows)"
    and "X \<noteq> []"
  shows "\<exists>st1 st2. forget x \<lparr>fp_memoryId = Some X, fp_query = q\<rparr> st = Inr (1, st1)
                 \<and> forget x \<lparr>fp_memoryId = Some X, fp_query = q\<rparr> st1 = Inr (0, st2)"
proof -
  let ?params = "\<lparr>fp_memoryId = Some X, fp_query = q\<rparr>"
  let ?st1 = "st\<lparr> db := Some (delete_ids [X] rows),
                   lanceTable := map_option (delete_vectors_try x [X]) (lanceTable st) \<rparr>"
  have first: "forget x ?params st = Inr (1, ?st1)"
    using assms by (simp add: forget_def truthy_def ids_by_id_def rows_modified_present)
  have "X \<notin> set (map c_id (delete_ids [X] rows))"
    by (rule delete_ids_absent) simp
  then have "rows_modified [X] (delete_ids [X] rows) = 0"
    by (rule rows_modified_absent)
  then have "\<exists>st2. forget x ?params ?st1 = Inr (0, st2)"
    using assms(4) by (simp add: forget_def truthy_def ids_by_id_def)
  with first show ?thesis by blast
qed

theorem forget_by_id_twice_witness:
  "\<exists>st1 st2.
      forget ext_ok \<lparr>fp_memoryId = Some ''id-1'', fp_query = None\<rparr> two_rows = Inr (1, st1)
    \<and> forget ext_ok \<lparr>fp_memoryId = Some ''id-1'', fp_query = None\<rparr> st1 = Inr (0, st2)"
proof -
  have h1: "db two_rows =
      Some [example_row ''id-1'' ''User prefers dark mode'' (9 / 10) ''2025-01-01'',
            example_row ''id-2'' ''User lives in Winterthur'' (8 / 10) ''2025-01-02'']"
    by (simp add: two_rows_def)
  have h2: "distinct (map c_id
      [example_row ''id-1'' ''User prefers dark mode'' (9 / 10) ''2025-01-01'',
       example_row ''id-2'' ''User lives in Winterthur'' (8 / 10) ''2025-01-02''])"
    by (simp add: example_row_def)
  have h3: "''id-1'' \<in> set (map c_id
      [example_row ''id-1'' ''User prefers dark mode'' (9 / 10) ''2025-01-01'',
       example_row ''id-2'' ''User lives in Winterthur'' (8 / 10) ''2025-01-02''])"
    by (simp add: example_row_def)
  have h4: "''id-1'' \<noteq> []" by simp
  show ?thesis
    by (rule forget_by_id_twice [OF h1 h2 h3 h4])
qed

text \<open>
  C10: on an initialised plugin, \<open>forget\<close> with neither a \<open>memoryId\<close> nor a \<open>query\<close>
  (absent, or the empty string, which JavaScript treats alike) returns \<open>{deleted: 0}\<close>
  and leaves the state, with both stores, as it was.
\<close>

theorem forget_without_target:
  assumes "db st = Some rows"
    and "\<not> truthy (fp_memoryId params)"
    and "\<not> truthy (fp_query params)"
  shows "forget x params st = Inr (0, st)"
  using assms by (simp add: forget_def)

theorem forget_without_target_witness:
  "db two_rows \<noteq> None
   \<and> forget ext_ok \<lparr>fp_memoryId = None, fp_query = None\<rparr> two_rows = Inr (0, two_rows)"
proof -
  have h: "db two_rows =
      Some [example_row ''id-1'' ''User prefers dark mode'' (9 / 10) ''2025-01-01'',
            example_row ''id-2'' ''User lives in Winterthur'' (8 / 10) ''2025-01-02'']"
    by (simp add: two_rows_def)
  show ?thesis
    using h forget_without_target [OF h, of "\<lparr>fp_memoryId = None, fp_query = None\<rparr>" ext_ok]
    by (simp add: truthy_def)
qed

subsection \<open>The limit of recall\<close>

lemma length_slice0: "0 < n \<Longrightarrow> length (slice0 n xs) \<le> nat n"
  by (simp add: slice0_def)

text \<open>
  C6 as stated fails: a limit of 0 is not clamped to 1. \<open>params.limit || 5\<close> turns it
  into 5, and a recall with limit 0 over two matching records returns both, which is
  more than \<open>max(0, 1) = 1\<close>.
\<close>

theorem recall_limit_zero_counterexample:
  "recall ext_ok (recall_params ''user'' (Some ModeStructured) (Some 0)) two_rows
     = Inr [memory_of_row (example_row ''id-1'' ''User prefers dark mode'' (9 / 10) ''2025-01-01''),
            memory_of_row (example_row ''id-2'' ''User lives in Winterthur'' (8 / 10) ''2025-01-02'')]
   \<and> \<not> length
          [memory_of_row (example_row ''id-1'' ''User prefers dark mode'' (9 / 10) ''2025-01-01''),
           memory_of_row (example_row ''id-2'' ''User lives in Winterthur'' (8 / 10) ''2025-01-02'')]
        \<le> nat (max 0 1)"
  by code_simp

text \<open>
  C6, amended: an absent limit and a limit of 0 both become 5, a positive limit is kept,
  and whenever the limit in force is positive recall returns at most that many results.
\<close>

theorem recall_limit_bound:
  "limit_of (params\<lparr>rp_limit := None\<rparr>) = 5
   \<and> limit_of (params\<lparr>rp_limit := Some 0\<rparr>) = 5
   \<and> (\<forall>l. 0 < l \<longrightarrow> limit_of (params\<lparr>rp_limit := Some l\<rparr>) = l)
   \<and> (\<forall>rs. 0 < limit_of params \<longrightarrow> recall x params st = Inr rs
          \<longrightarrow> length rs \<le> nat (limit_of params))"
proof (intro conjI allI impI)
  fix rs
  assume pos: "0 < limit_of params" and r: "recall x params st = Inr rs"
  from r obtain rows where "db st = Some rows"
    by (auto simp: recall_def split: option.splits)
  with r obtain ys where "rs = slice0 (limit_of params) ys"
    by (auto simp: recall_def Let_def)
  with pos show "length rs \<le> nat (limit_of params)"
    by (simp add: length_slice0)
qed (simp_all add: limit_of_def)

theorem recall_limit_bound_witness:
  "0 < limit_of (recall_params ''user'' (Some ModeStructured) (Some 1))
   \<and> recall ext_ok (recall_params ''user'' (Some ModeStructured) (Some 1)) two_rows
     = Inr [memory_of_row (example_row ''id-1'' ''User prefers dark mode'' (9 / 10) ''2025-01-01'')]
   \<and> length [memory_of_row (example_row ''id-1'' ''User prefers dark mode'' (9 / 10) ''2025-01-01'')]
       \<le> nat (limit_of (recall_params ''user'' (Some ModeStructured) (Some 1)))"
proof -
  have pos: "0 < limit_of (recall_params ''user'' (Some ModeStructured) (Some 1))"
    by (simp add: limit_of_def recall_params_def)
  have r: "recall ext_ok (recall_params ''user'' (Some ModeStructured) (Some 1)) two_rows
     = Inr [memory_of_row (example_row ''id-1'' ''User prefers dark mode'' (9 / 10) ''2025-01-01'')]"
    by code_simp
  from recall_limit_bound
    [of "recall_params ''user'' (Some ModeStructured) (Some 1)" ext_ok two_rows]
  have "length [memory_of_row (example_row ''id-1'' ''User prefers dark mode'' (9 / 10) ''2025-01-01'')]
       \<le> nat (limit_of (recall_params ''user'' (Some ModeStructured) (Some 1)))"
    using pos r by blast
  with pos r show ?thesis by blast
qed

subsection \<open>The text filter of the structured search\<close>




lemma toLowerChar_idem [simp]: "toLowerChar (toLowerChar c) = toLowerChar c"
  by (auto simp: toLowerChar_def is_upper_def less_eq_char_def)


lemma split_ws_Nil: "split_ws [] = [[]]"
  by (simp add: split_ws.simps)

lemma searchWords_Nil [simp]: "searchWords [] = []"
  by (simp add: searchWords_def toLowerCase_def split_ws_Nil)




subsection \<open>store\<close>

lemma delete_ids_Nil [simp]: "delete_ids [] rows = rows"
  by (simp add: delete_ids_def)

lemma pruneOldMemories_Inr:
  assumes "db st = Some rows"
  shows "\<exists>st'. pruneOldMemories x st = Inr st'
           \<and> db st' = Some (prune_rows (maxMemories (config st)) rows)
           \<and> config st' = config st \<and> pending st' = pending st \<and> lanceDb st' = lanceDb st"
  using assms by (auto simp: pruneOldMemories_def prune_rows_def sql_limit_def Let_def)

lemma store_Inr:
  assumes "db st = Some rows" and "uuid \<notin> set (map c_id rows)"
  shows "\<exists>st'. store x now uuid params st = Inr (new_memory (config st) now uuid params, st')
           \<and> db st' = Some (prune_rows (maxMemories (config st))
                               (rows @ [row_of_memory (new_memory (config st) now uuid params)]))
           \<and> config st' = config st
           \<and> lanceDb st' = lanceDb st
           \<and> pending st' = (if enableEmbeddings (config st) \<and> lanceDb st
                             then pending st @ [new_memory (config st) now uuid params]
                             else pending st)"
proof -
  let ?m = "new_memory (config st) now uuid params"
  let ?st1 = "st\<lparr>db := Some (rows @ [row_of_memory ?m])\<rparr>"
  let ?st2 = "if enableEmbeddings (config ?st1) \<and> lanceDb ?st1
              then ?st1\<lparr>pending := pending ?st1 @ [?m]\<rparr> else ?st1"
  have ins: "insert_row (row_of_memory ?m) rows = Inr (rows @ [row_of_memory ?m])"
    using assms(2) by (simp add: insert_row_def row_of_memory_def new_memory_def)
  have "db ?st2 = Some (rows @ [row_of_memory ?m])" by simp
  from pruneOldMemories_Inr [OF this, of x]
  obtain st' where p: "pruneOldMemories x ?st2 = Inr st'"
    and d: "db st' = Some (prune_rows (maxMemories (config ?st2)) (rows @ [row_of_memory ?m]))"
    and c: "config st' = config ?st2" "pending st' = pending ?st2" "lanceDb st' = lanceDb ?st2"
    by blast
  have "store x now uuid params st = Inr (?m, st')"
    using assms(1) ins p by (simp add: store_def Let_def)
  moreover have "config ?st2 = config st" "lanceDb ?st2 = lanceDb st" by simp_all
  moreover have "pending ?st2 = (if enableEmbeddings (config st) \<and> lanceDb st
                             then pending st @ [?m] else pending st)" by simp
  ultimately show ?thesis using d c by (intro exI [of _ st']) simp
qed

text \<open>
  C2 as stated fails: \<open>store\<close> validates nothing. A text of three spaces is stored: the
  call returns the record, the table holds its row, and its embedding has been started.
\<close>

theorem store_blank_text_counterexample:
  "store ext_ok ''2025-01-01'' ''id-1'' (store_params ''   '' None) (plugin_init DEFAULT_CONFIG)
     = Inr (new_memory DEFAULT_CONFIG ''2025-01-01'' ''id-1'' (store_params ''   '' None),
            (plugin_init DEFAULT_CONFIG)
              \<lparr> db := Some [example_row ''id-1'' ''   '' (7 / 10) ''2025-01-01''],
                pending := [new_memory DEFAULT_CONFIG ''2025-01-01'' ''id-1''
                              (store_params ''   '' None)] \<rparr>)"
  by code_simp

text \<open>
  C2, amended: \<open>store\<close> does not validate its input. On an initialised plugin and with a
  fresh id it succeeds for every input, a text that is empty after trimming included: it
  returns the record with the text as given, the record's row is in the table when the
  table was below \<open>maxMemories\<close>, and the record's embedding is started when embeddings
  are enabled and LanceDB is connected.
\<close>

theorem store_accepts_any_text:
  assumes "db st = Some rows" and "uuid \<notin> set (map c_id rows)"
  shows "\<exists>st'. store x now uuid params st = Inr (new_memory (config st) now uuid params, st')
           \<and> m_text (new_memory (config st) now uuid params) = sp_text params
           \<and> (length rows < maxMemories (config st) \<longrightarrow>
                db st' = Some (rows @ [row_of_memory (new_memory (config st) now uuid params)]))
           \<and> (enableEmbeddings (config st) \<and> lanceDb st \<longrightarrow>
                pending st' = pending st @ [new_memory (config st) now uuid params])"
proof -
  from store_Inr [OF assms, of x now params] obtain st'
    where "store x now uuid params st = Inr (new_memory (config st) now uuid params, st')"
      and "db st' = Some (prune_rows (maxMemories (config st))
                               (rows @ [row_of_memory (new_memory (config st) now uuid params)]))"
      and "pending st' = (if enableEmbeddings (config st) \<and> lanceDb st
                             then pending st @ [new_memory (config st) now uuid params]
                             else pending st)"
    by blast
  then show ?thesis
    by (intro exI [of _ st']) (auto simp: prune_rows_def new_memory_def)
qed

theorem store_accepts_any_text_witness:
  "db (plugin_init DEFAULT_CONFIG) = Some []
   \<and> ''id-1'' \<notin> set (map c_id [])
   \<and> (\<exists>st'. store ext_ok ''2025-01-01'' ''id-1'' (store_params ''   '' None)
                (plugin_init DEFAULT_CONFIG)
              = Inr (new_memory DEFAULT_CONFIG ''2025-01-01'' ''id-1''
                       (store_params ''   '' None), st')
            \<and> db st' = Some [row_of_memory (new_memory DEFAULT_CONFIG ''2025-01-01'' ''id-1''
                                               (store_params ''   '' None))]
            \<and> pending st' = [new_memory DEFAULT_CONFIG ''2025-01-01'' ''id-1''
                                (store_params ''   '' None)])"
proof -
  have h1: "db (plugin_init DEFAULT_CONFIG) = Some []"
    by (simp add: plugin_init_def)
  have h2: "''id-1'' \<notin> set (map c_id [])"
    by simp
  have cfg: "config (plugin_init DEFAULT_CONFIG) = DEFAULT_CONFIG"
    "lanceDb (plugin_init DEFAULT_CONFIG)" "pending (plugin_init DEFAULT_CONFIG) = []"
    "maxMemories DEFAULT_CONFIG = 10000" "enableEmbeddings DEFAULT_CONFIG"
    by (simp_all add: plugin_init_def DEFAULT_CONFIG_def)
  from store_accepts_any_text [OF h1 h2, of ext_ok "''2025-01-01''" "store_params ''   '' None"]
  have "\<exists>st'. store ext_ok ''2025-01-01'' ''id-1'' (store_params ''   '' None)
                (plugin_init DEFAULT_CONFIG)
              = Inr (new_memory DEFAULT_CONFIG ''2025-01-01'' ''id-1''
                       (store_params ''   '' None), st')
            \<and> db st' = Some [row_of_memory (new_memory DEFAULT_CONFIG ''2025-01-01'' ''id-1''
                                               (store_params ''   '' None))]
            \<and> pending st' = [new_memory DEFAULT_CONFIG ''2025-01-01'' ''id-1''
                                (store_params ''   '' None)]"
    by (auto simp: cfg)
  with h1 h2 show ?thesis by blast
qed

subsection \<open>The semantic path of recall\<close>

text \<open>
  The fallbacks that \<open>semanticSearch\<close> has: no vector table, a failed embedding, a
  failed vector search, and a vector search without hits.
\<close>

lemma semanticSearch_fallbacks:
  "lanceTable st = None \<Longrightarrow>
     semanticSearch x params limit st rows = structuredSearch params limit rows"
  "lanceTable st = Some t \<Longrightarrow> embed x (rp_query params) (embeddingModel (config st)) = Inl e \<Longrightarrow>
     semanticSearch x params limit st rows = structuredSearch params limit rows"
  "lanceTable st = Some t \<Longrightarrow> embed x (rp_query params) (embeddingModel (config st)) = Inr v \<Longrightarrow>
     vsearch x t v (limit * 2) = Inl e \<Longrightarrow>
     semanticSearch x params limit st rows = structuredSearch params limit rows"
  "lanceTable st = Some t \<Longrightarrow> embed x (rp_query params) (embeddingModel (config st)) = Inr v \<Longrightarrow>
     vsearch x t v (limit * 2) = Inr [] \<Longrightarrow>
     semanticSearch x params limit st rows = structuredSearch params limit rows"
  by (simp_all add: semanticSearch_def)

text \<open>
  C9: the semantic path falls back to the structured search when the vector search
  returns no hit, and not when it returns hits of which none is in the table any more.
  In \<open>stale_state\<close>, which a store, a forget, the end of the first embedding and a second
  store lead to, the only vector belongs to a forgotten record: a semantic recall of
  "dark mode preferences" returns nothing, while the structured search it should have
  fallen back to finds the stored record.
\<close>

theorem semantic_recall_stale_hits:
  "stale_state_history = Inr stale_state
   \<and> recall ext_ok (recall_params ''dark mode preferences'' (Some ModeSemantic) None) stale_state
       = Inr []
   \<and> recall ext_ok (recall_params ''dark mode preferences'' (Some ModeStructured) None) stale_state
       = Inr [memory_of_row (example_row ''id-2'' ''User prefers dark mode'' (9 / 10) ''2025-01-02'')]"
  by code_simp

subsection \<open>Round trip of store and structured recall\<close>








lemma set_order_desc [simp]: "set (order_desc rows) = set rows"
  by (simp add: order_desc_def)


lemma set_prune_rows: "set (prune_rows k rows) \<subseteq> set rows"
  by (auto simp: prune_rows_def delete_ids_def)






subsection \<open>Retention\<close>

lemma delete_ids_by_rows:
  assumes "distinct (map c_id rows)" and "set vs \<subseteq> set rows"
  shows "delete_ids (map c_id vs) rows = filter (\<lambda>r. r \<notin> set vs) rows"
proof -
  have inj: "inj_on c_id (set rows)"
    using assms(1) by (simp add: distinct_map)
  have "c_id r \<in> set (map c_id vs) \<longleftrightarrow> r \<in> set vs" if "r \<in> set rows" for r
  proof
    assume "c_id r \<in> set (map c_id vs)"
    then obtain v where "v \<in> set vs" "c_id v = c_id r" by auto
    with assms(2) that inj show "r \<in> set vs"
      by (metis inj_onD subsetD)
  qed simp
  then show ?thesis
    unfolding delete_ids_def by (intro filter_cong) auto
qed

lemma prune_rows_parts:
  assumes dist: "distinct (map c_id rows)" and over: "k < length rows"
  shows "set (prune_rows k rows) = set (drop (length rows - k) (order_asc rows))"
    and "length (prune_rows k rows) = k"
    and "set rows - set (prune_rows k rows) = set (take (length rows - k) (order_asc rows))"
proof -
  let ?d = "length rows - k"
  let ?L = "order_asc rows"
  let ?V = "take ?d ?L"
  let ?U = "drop ?d ?L"
  have drows: "distinct rows"
    using dist by (rule distinct_map [THEN iffD1, THEN conjunct1])
  have setL: "set ?L = set rows" and dL: "distinct ?L" and lenL: "length ?L = length rows"
    using drows by (simp_all add: order_asc_def)
  have split: "?L = ?V @ ?U" by simp
  have disj: "set ?V \<inter> set ?U = {}"
    using dL by (metis split distinct_append)
  have union: "set ?V \<union> set ?U = set rows"
    by (metis setL set_append split)
  have sub: "set ?V \<subseteq> set rows"
    using union by blast
  have pr: "prune_rows k rows = filter (\<lambda>r. r \<notin> set ?V) rows"
    using over by (simp add: prune_rows_def delete_ids_by_rows [OF dist sub])
  show set_eq: "set (prune_rows k rows) = set ?U"
    using disj union by (auto simp: pr)
  have "distinct (prune_rows k rows)"
    unfolding pr using drows by (rule distinct_filter)
  then have "length (prune_rows k rows) = card (set (prune_rows k rows))"
    by (simp add: distinct_card)
  also have "\<dots> = card (set ?U)" by (simp only: set_eq)
  also have "\<dots> = length ?U"
    using dL by (simp add: distinct_card)
  also have "\<dots> = k"
    using over by (simp add: lenL)
  finally show "length (prune_rows k rows) = k" .
  show "set rows - set (prune_rows k rows) = set ?V"
    using disj union by (auto simp: set_eq)
qed

lemma order_asc_take_le_drop:
  assumes "v \<in> set (take d (order_asc rows))" and "u \<in> set (drop d (order_asc rows))"
  shows "rank v \<le> rank u"
proof -
  have "sorted (map rank (take d (order_asc rows) @ drop d (order_asc rows)))"
    by (simp add: order_asc_def)
  then show ?thesis
    using assms unfolding map_append sorted_append by auto
qed

lemma retained_step:
  assumes inv: "retained k rows inserted" and fresh: "c_id r \<notin> set (map c_id inserted)"
  shows "retained k (prune_rows k (rows @ [r])) (inserted @ [r])"
proof -
  let ?rows1 = "rows @ [r]"
  from inv have di: "distinct (map c_id inserted)" and dr: "distinct (map c_id rows)"
    and sub: "set rows \<subseteq> set inserted" and len: "length rows = min (length inserted) k"
    and low: "\<forall>e \<in> set inserted - set rows. \<forall>s \<in> set rows. rank e \<le> rank s"
    by (simp_all add: retained_def)
  have fresh_rows: "c_id r \<notin> set (map c_id rows)"
    using fresh sub by auto
  have di1: "distinct (map c_id (inserted @ [r]))"
    using di fresh by simp
  have dr1: "distinct (map c_id ?rows1)"
    using dr fresh_rows by simp
  show ?thesis
  proof (cases "k < length ?rows1")
    case False
    then have same: "prune_rows k ?rows1 = ?rows1"
      by (simp add: prune_rows_def)
    from False len have full: "length rows = length inserted" by simp
    have "set rows = set inserted"
    proof (rule card_subset_eq [OF _ sub])
      show "finite (set inserted)" by simp
      have "distinct rows" "distinct inserted"
        using dr di by (auto simp: distinct_map)
      then show "card (set rows) = card (set inserted)"
        using full by (simp add: distinct_card)
    qed
    with False full show ?thesis
      unfolding same retained_def using di1 dr1 by auto
  next
    case True
    note parts = prune_rows_parts [OF dr1 True]
    let ?d = "length ?rows1 - k"
    have len_rows: "length rows = k"
      using True len by simp
    have d1: "?d = 1" using len_rows by simp
    have "\<exists>Q. prune_rows k ?rows1 = filter Q ?rows1"
      unfolding prune_rows_def delete_ids_def using True by (simp only: if_True) blast
    then have dp: "distinct (map c_id (prune_rows k ?rows1))"
      using distinct_map_filter [OF dr1] by auto
    have subp: "set (prune_rows k ?rows1) \<subseteq> set (inserted @ [r])"
      using set_prune_rows [of k ?rows1] sub by auto
    have lenp: "length (prune_rows k ?rows1) = min (length (inserted @ [r])) k"
      using parts(2) len_rows len by simp
    have lowp: "rank e \<le> rank s"
      if e: "e \<in> set (inserted @ [r]) - set (prune_rows k ?rows1)"
        and s: "s \<in> set (prune_rows k ?rows1)" for e s
    proof -
      have s_drop: "s \<in> set (drop ?d (order_asc ?rows1))"
        using s parts(1) by simp
      have victims_low: "rank v \<le> rank s" if "v \<in> set (take ?d (order_asc ?rows1))" for v
        using that s_drop by (rule order_asc_take_le_drop)
      show ?thesis
      proof (cases "e \<in> set ?rows1")
        case True
        with e parts(3) have "e \<in> set (take ?d (order_asc ?rows1))" by blast
        then show ?thesis by (rule victims_low)
      next
        case False
        with e have e_old: "e \<in> set inserted - set rows" by auto
        have "length (take ?d (order_asc ?rows1)) = 1"
          using d1 by (simp add: order_asc_def)
        then obtain v where v: "v \<in> set (take ?d (order_asc ?rows1))"
          by (cases "take ?d (order_asc ?rows1)") auto
        from v parts(3) have v_rows1: "v \<in> set ?rows1"
          and v_out: "v \<notin> set (prune_rows k ?rows1)"
          by blast+
        show ?thesis
        proof (cases "s = r")
          case False
          with s set_prune_rows [of k ?rows1] have "s \<in> set rows"
            by auto
          with e_old low show ?thesis by blast
        next
          case True
          with s v_out have "v \<noteq> r" by blast
          with v_rows1 have "v \<in> set rows" by simp
          with e_old low have "rank e \<le> rank v" by blast
          also have "rank v \<le> rank s" using v by (rule victims_low)
          finally show ?thesis .
        qed
      qed
    qed
    show ?thesis
      unfolding retained_def using di1 dp subp lenp lowp by blast
  qed
qed

lemma store_all_retained:
  assumes "db st = Some rows"
    and "retained (maxMemories (config st)) rows inserted"
    and "distinct (map uuid_of calls)"
    and "set (map uuid_of calls) \<inter> set (map c_id inserted) = {}"
  shows "\<exists>ms st' rows'. store_all x calls st = Inr (ms, st')
           \<and> map m_id ms = map uuid_of calls
           \<and> config st' = config st
           \<and> db st' = Some rows'
           \<and> retained (maxMemories (config st)) rows' (inserted @ map row_of_memory ms)"
  using assms
proof (induction calls arbitrary: st rows inserted)
  case Nil
  then show ?case by simp
next
  case (Cons call calls)
  obtain now uuid params where call: "call = (now, uuid, params)"
    by (cases call) auto
  let ?k = "maxMemories (config st)"
  let ?m = "new_memory (config st) now uuid params"
  from Cons.prems(4) have fresh: "uuid \<notin> set (map c_id inserted)"
    by (auto simp: call uuid_of_def)
  from Cons.prems(2) have "set rows \<subseteq> set inserted"
    by (simp add: retained_def)
  with fresh have fresh_rows: "uuid \<notin> set (map c_id rows)"
    by auto
  from store_Inr [OF Cons.prems(1) fresh_rows, of x now params]
  obtain st1 where st1: "store x now uuid params st = Inr (?m, st1)"
    and db1: "db st1 = Some (prune_rows ?k (rows @ [row_of_memory ?m]))"
    and cfg1: "config st1 = config st"
    by blast
  have id_m: "c_id (row_of_memory ?m) = uuid"
    by (simp add: row_of_memory_def new_memory_def)
  have inv1: "retained (maxMemories (config st1)) (prune_rows ?k (rows @ [row_of_memory ?m]))
                (inserted @ [row_of_memory ?m])"
    unfolding cfg1 using Cons.prems(2) fresh
    by (intro retained_step) (simp_all add: id_m)
  have d1: "distinct (map uuid_of calls)"
    using Cons.prems(3) by simp
  have disj1: "set (map uuid_of calls) \<inter> set (map c_id (inserted @ [row_of_memory ?m])) = {}"
    using Cons.prems(3,4) by (auto simp: id_m call uuid_of_def)
  from Cons.IH [OF db1 inv1 d1 disj1]
  obtain ms st' rows' where rest: "store_all x calls st1 = Inr (ms, st')"
    and ids: "map m_id ms = map uuid_of calls"
    and cfg': "config st' = config st1"
    and db': "db st' = Some rows'"
    and inv': "retained (maxMemories (config st1)) rows'
                 ((inserted @ [row_of_memory ?m]) @ map row_of_memory ms)"
    by blast
  have "store_all x (call # calls) st = Inr (?m # ms, st')"
    by (simp add: call st1 rest)
  moreover have "map m_id (?m # ms) = map uuid_of (call # calls)"
    by (simp add: ids call uuid_of_def new_memory_def)
  moreover have "retained ?k rows' (inserted @ map row_of_memory (?m # ms))"
    using inv' by (simp add: cfg1)
  ultimately show ?case
    using cfg' cfg1 db' by auto
qed

lemma retained_top:
  assumes inv: "retained k rows inserted"
    and ranks: "distinct (map rank inserted)"
  shows "set rows = set (take k (order_desc inserted))"
proof -
  let ?L = "order_asc inserted"
  let ?n = "length inserted"
  let ?T = "set (drop (?n - k) ?L)"
  let ?A = "set (take (?n - k) ?L)"
  from inv have dr: "distinct (map c_id rows)"
    and sub: "set rows \<subseteq> set inserted" and len: "length rows = min ?n k"
    and low: "\<forall>e \<in> set inserted - set rows. \<forall>s \<in> set rows. rank e \<le> rank s"
    by (simp_all add: retained_def)
  have di: "distinct inserted" and inj: "inj_on rank (set inserted)"
    using ranks by (simp_all add: distinct_map)
  have dL: "distinct ?L" and lenL: "length ?L = ?n" and setL: "set ?L = set inserted"
    using di by (simp_all add: order_asc_def)
  have top: "take k (order_desc inserted) = rev (drop (?n - k) ?L)"
    by (simp add: order_desc_def order_asc_def take_rev)
  have AT: "?A \<union> ?T = set inserted"
    by (metis setL append_take_drop_id set_append)
  have cardT: "card ?T = min ?n k"
    using dL by (simp add: distinct_card lenL)
  have "distinct rows" using dr by (simp add: distinct_map)
  then have cardR: "card (set rows) = min ?n k"
    using len by (simp add: distinct_card)
  have "set rows \<subseteq> ?T"
  proof
    fix s assume s: "s \<in> set rows"
    show "s \<in> ?T"
    proof (rule ccontr)
      assume notT: "s \<notin> ?T"
      with s sub AT have sA: "s \<in> ?A" by blast
      have "\<not> ?T \<subseteq> set rows"
      proof
        assume "?T \<subseteq> set rows"
        then have "?T = set rows"
          using cardT cardR by (intro card_subset_eq) simp_all
        with s notT show False by simp
      qed
      then obtain t where t: "t \<in> ?T" "t \<notin> set rows" by blast
      with AT have "t \<in> set inserted - set rows" by blast
      with low s have "rank t \<le> rank s" by blast
      moreover have "rank s \<le> rank t"
        using sA t(1) by (rule order_asc_take_le_drop)
      ultimately have "rank s = rank t" by simp
      moreover have "s \<in> set inserted" "t \<in> set inserted"
        using s sub t(1) AT by blast+
      ultimately have "s = t" using inj by (simp add: inj_on_eq_iff)
      with s t(2) show False by simp
    qed
  qed
  then have "set rows = ?T"
    using cardT cardR by (intro card_subset_eq) simp_all
  then show ?thesis by (simp add: top)
qed

text \<open>
  C3: starting from an empty table, after \<open>maxMemories + N\<close> sequential stores (with
  the distinct ids that \<open>randomUUID\<close> gives) every store has succeeded and exactly
  \<open>maxMemories\<close> records remain. They are records that were inserted, and every
  inserted record that is gone ranks at or below every record that remains, by importance
  and then \<open>createdAt\<close>. When no two inserted records have the same importance and
  \<open>createdAt\<close>, so that the ranking has no ties, the records that remain are exactly the
  first \<open>maxMemories\<close> of the inserted records in the order importance descending,
  \<open>createdAt\<close> descending.
\<close>

theorem retention_bound:
  assumes empty: "db st = Some []"
    and uuids: "distinct (map uuid_of calls)"
    and many: "maxMemories (config st) \<le> length calls"
  shows "\<exists>ms st' rows. store_all x calls st = Inr (ms, st')
           \<and> length ms = length calls
           \<and> db st' = Some rows
           \<and> length rows = maxMemories (config st)
           \<and> set rows \<subseteq> set (map row_of_memory ms)
           \<and> (\<forall>e \<in> set (map row_of_memory ms) - set rows. \<forall>s \<in> set rows. rank e \<le> rank s)
           \<and> (distinct (map rank (map row_of_memory ms)) \<longrightarrow>
                set rows = set (take (maxMemories (config st))
                                  (order_desc (map row_of_memory ms))))"
proof -
  let ?k = "maxMemories (config st)"
  have inv0: "retained ?k [] []"
    by (simp add: retained_def)
  have disj: "set (map uuid_of calls) \<inter> set (map c_id []) = {}"
    by simp
  from store_all_retained [OF empty inv0 uuids disj, of x]
  obtain ms st' rows where run: "store_all x calls st = Inr (ms, st')"
    and ids: "map m_id ms = map uuid_of calls"
    and db': "db st' = Some rows"
    and inv: "retained ?k rows (map row_of_memory ms)"
    by auto
  from ids have len: "length ms = length calls"
    by (metis length_map)
  from inv have "length rows = min (length ms) ?k"
    and "set rows \<subseteq> set (map row_of_memory ms)"
    and "\<forall>e \<in> set (map row_of_memory ms) - set rows. \<forall>s \<in> set rows. rank e \<le> rank s"
    by (simp_all add: retained_def)
  moreover have "distinct (map rank (map row_of_memory ms)) \<longrightarrow>
      set rows = set (take ?k (order_desc (map row_of_memory ms)))"
    using retained_top [OF inv] by blast
  ultimately show ?thesis
    using run len db' many by (intro exI [of _ ms] exI [of _ st'] exI [of _ rows]) simp
qed

theorem retention_bound_witness:
  "db small_plugin = Some []
   \<and> distinct (map uuid_of retention_calls)
   \<and> maxMemories (config small_plugin) \<le> length retention_calls
   \<and> (\<exists>ms st' rows. store_all ext_ok retention_calls small_plugin = Inr (ms, st')
         \<and> ms = retention_memories
         \<and> db st' = Some rows
         \<and> rows = [example_row ''id-1'' ''first note'' (9 / 10) ''2025-01-01'',
                   example_row ''id-3'' ''third note'' (8 / 10) ''2025-01-03'']
         \<and> length rows = maxMemories (config small_plugin)
         \<and> set rows = set (take (maxMemories (config small_plugin))
                             (order_desc (map row_of_memory ms))))"
proof -
  have h1: "db small_plugin = Some []"
    by (simp add: small_plugin_def plugin_init_def)
  have h2: "distinct (map uuid_of retention_calls)"
    by (simp add: retention_calls_def uuid_of_def)
  have h3: "maxMemories (config small_plugin) \<le> length retention_calls"
    by (simp add: small_plugin_def plugin_init_def retention_calls_def)
  have run: "store_all ext_ok retention_calls small_plugin
      = Inr (retention_memories,
             small_plugin
               \<lparr> db := Some [example_row ''id-1'' ''first note'' (9 / 10) ''2025-01-01'',
                             example_row ''id-3'' ''third note'' (8 / 10) ''2025-01-03''],
                 pending := retention_memories \<rparr>)"
    by code_simp
  have ranks: "distinct (map rank (map row_of_memory retention_memories))"
    by code_simp
  from retention_bound [OF h1 h2 h3, of ext_ok] run ranks
  have "\<exists>ms st' rows. store_all ext_ok retention_calls small_plugin = Inr (ms, st')
         \<and> ms = retention_memories
         \<and> db st' = Some rows
         \<and> rows = [example_row ''id-1'' ''first note'' (9 / 10) ''2025-01-01'',
                   example_row ''id-3'' ''third note'' (8 / 10) ''2025-01-03'']
         \<and> length rows = maxMemories (config small_plugin)
         \<and> set rows = set (take (maxMemories (config small_plugin))
                             (order_desc (map row_of_memory ms)))"
    by auto
  with h1 h2 h3 show ?thesis by blast
qed

end
